theory Spec2Isabelle
  imports Main "HOL-Library.Word"
begin

unbundle bit_operations_syntax

section \<open>JavaScript values, strings and completions\<close>

text \<open>
  A JavaScript string is a sequence of 16-bit code units; \<open>charCodeAt\<close> reads one and
  \<open>String.fromCharCode\<close> builds one. A \<open>Uint8Array\<close> is a sequence of bytes. The
  parameter of \<open>getBestEffortDecodedString\<close> is declared \<open>string | undefined\<close>; at run time
  the falsy test \<open>!text\<close> also accepts \<open>null\<close>, so the three shapes are kept apart.
\<close>

type_synonym code_unit = "16 word"
type_synonym js_string = "code_unit list"
type_synonym byte = "8 word"
type_synonym code_point = "32 word"

datatype js_value = Undefined | Null | Str js_string

datatype js_error = TypeError | RangeError

text \<open>
  A statement of the source completes normally, returns a value from the enclosing function,
  or throws. A run of statements is its completion together with the labels of the decoders
  it constructed, in order. \<open>seq\<close> is statement sequencing (the second statement runs only
  when the first completes normally), \<open>try_catch\<close> is \<open>try { r } catch (e) { h e }\<close>, and
  \<open>call\<close> turns the completion of a function body into what the caller observes: a thrown
  error, or a value (\<open>undefined\<close> when the body ends without \<open>return\<close>).
\<close>

datatype completion = Normal | Return js_value | Throw js_error

type_synonym run = "completion \<times> string list"

definition seq :: "run \<Rightarrow> run \<Rightarrow> run" where
  "seq r1 r2 =
     (case fst r1 of
        Normal \<Rightarrow> (fst r2, snd r1 @ snd r2)
      | Return v \<Rightarrow> r1
      | Throw e \<Rightarrow> r1)"

definition try_catch :: "run \<Rightarrow> (js_error \<Rightarrow> run) \<Rightarrow> run" where
  "try_catch r h =
     (case fst r of
        Normal \<Rightarrow> r
      | Return v \<Rightarrow> r
      | Throw e \<Rightarrow> (fst (h e), snd r @ snd (h e)))"

definition call :: "completion \<Rightarrow> js_error + js_value" where
  "call c = (case c of Normal \<Rightarrow> Inr Undefined | Return v \<Rightarrow> Inr v | Throw e \<Rightarrow> Inl e)"

section \<open>The repair heuristic of \<open>App.tsx\<close>\<close>

text \<open>
  The test of the first loop:
  \<^verbatim>\<open>(charCode & 0x00FF) === 0 && (charCode >> 8) >= 0x20 && (charCode >> 8) <= 0x7E\<close>.
  A code unit is below \<open>2 ^ 16\<close>, so the 32-bit operators of JavaScript agree with the
  16-bit word operations.
\<close>

definition high_byte_printable :: "code_unit \<Rightarrow> bool" where
  "high_byte_printable charCode \<longleftrightarrow>
     (charCode AND 0x00FF) = 0 \<and> drop_bit 8 charCode \<ge> 0x20 \<and> drop_bit 8 charCode \<le> 0x7E"

text \<open>
  First loop. The state is \<open>(isMisinterpretedUTF16BE, reconstructed)\<close>, started at
  \<open>(true, '')\<close>; the loop appends the high byte of each unit and stops with the flag cleared
  (\<open>break\<close>) at the first unit that fails the test.
\<close>

fun reconstruct_loop :: "js_string \<Rightarrow> bool \<times> js_string \<Rightarrow> bool \<times> js_string" where
  "reconstruct_loop [] st = st"
| "reconstruct_loop (charCode # rest) (isMisinterpretedUTF16BE, reconstructed) =
     (if high_byte_printable charCode
      then reconstruct_loop rest (isMisinterpretedUTF16BE, reconstructed @ [drop_bit 8 charCode])
      else (False, reconstructed))"

text \<open>
  Second loop. The state is \<open>isPotentiallyGarbled\<close>, started at \<open>true\<close> and cleared at the
  first unit above 255.
\<close>

fun garbled_loop :: "js_string \<Rightarrow> bool \<Rightarrow> bool" where
  "garbled_loop [] isPotentiallyGarbled = isPotentiallyGarbled"
| "garbled_loop (charCode # rest) isPotentiallyGarbled =
     (if charCode > 255 then False else garbled_loop rest isPotentiallyGarbled)"

text \<open>
  Third loop: \<open>buffer[i] = text.charCodeAt(i)\<close> on a \<open>Uint8Array\<close> of the length of the text.
  A store into a \<open>Uint8Array\<close> keeps the low eight bits.
\<close>

fun fill_buffer :: "js_string \<Rightarrow> byte list" where
  "fill_buffer [] = []"
| "fill_buffer (charCode # rest) = ucast charCode # fill_buffer rest"

text \<open>
  One guarded attempt,
  \<^verbatim>\<open>try { const d = new TextDecoder(label, { fatal: true }).decode(buffer);
        if (d !== text) return d; } catch (e) {}\<close>.
  The platform decoder is the parameter \<open>decode\<close>: given a label and the bytes it yields the
  decoded string or the error it throws. The attempt is recorded in the run.
\<close>

type_synonym text_decoder = "string \<Rightarrow> byte list \<Rightarrow> js_error + js_string"

definition decode_attempt :: "text_decoder \<Rightarrow> string \<Rightarrow> byte list \<Rightarrow> js_string \<Rightarrow> run" where
  "decode_attempt decode label buffer text =
     try_catch
       (case decode label buffer of
          Inl e \<Rightarrow> (Throw e, [label])
        | Inr decoded \<Rightarrow> (if decoded \<noteq> text then Return (Str decoded) else Normal, [label]))
       (\<lambda>e. (Normal, []))"

text \<open>The body of the outer \<open>try\<close> block, for a non-empty \<open>text\<close>.\<close>

definition repair_steps :: "text_decoder \<Rightarrow> js_string \<Rightarrow> run" where
  "repair_steps decode text =
     (let (isMisinterpretedUTF16BE, reconstructed) = reconstruct_loop text (True, []) in
      if isMisinterpretedUTF16BE \<and> reconstructed \<noteq> [] then (Return (Str reconstructed), [])
      else
        let isPotentiallyGarbled = garbled_loop text True in
        if \<not> isPotentiallyGarbled then (Return (Str text), [])
        else
          let buffer = fill_buffer text in
          seq (decode_attempt decode ''utf-8'' buffer text)
              (decode_attempt decode ''shift-jis'' buffer text))"

text \<open>
  The function itself: \<open>if (!text) return ''\<close>, then the outer \<open>try\<close> whose handler only logs,
  then \<open>return text\<close>. \<open>getBestEffortDecodedString\<close> is what the caller receives and
  \<open>decoders_attempted\<close> lists the decoders the call constructed.
\<close>

definition getBestEffortDecodedString_run :: "text_decoder \<Rightarrow> js_value \<Rightarrow> run" where
  "getBestEffortDecodedString_run decode text =
     (case text of
        Undefined \<Rightarrow> (Return (Str []), [])
      | Null \<Rightarrow> (Return (Str []), [])
      | Str s \<Rightarrow>
          if s = [] then (Return (Str []), [])
          else seq (try_catch (repair_steps decode s) (\<lambda>e. (Normal, []))) (Return (Str s), []))"

definition getBestEffortDecodedString :: "text_decoder \<Rightarrow> js_value \<Rightarrow> js_error + js_value" where
  "getBestEffortDecodedString decode text = call (fst (getBestEffortDecodedString_run decode text))"

definition decoders_attempted :: "text_decoder \<Rightarrow> js_value \<Rightarrow> string list" where
  "decoders_attempted decode text = snd (getBestEffortDecodedString_run decode text)"

section \<open>The platform decoder\<close>

text \<open>
  Modelled from the spec: the strict decoders of steps 3 and 4. The program obtains them
  from the browser (\<open>new TextDecoder(label, { fatal: true })\<close>); their code is not part of
  the repository. The definitions of this section follow the algorithms of the WHATWG
  Encoding Standard, which defines \<open>TextDecoder\<close>, for the two encodings the program asks
  for: in fatal mode every decoder error makes \<open>decode\<close> throw a \<open>TypeError\<close> (a strict
  decode, with no replacement characters), and \<open>ignoreBOM\<close> keeps its default \<open>false\<close>. The
  index \<open>jis0208\<close> of the standard (pointer to code point) is a parameter.
\<close>

datatype encoding = UTF_8 | Shift_JIS

definition get_encoding :: "string \<Rightarrow> encoding option" where
  "get_encoding label =
     (if label \<in> set [''unicode-1-1-utf-8'', ''unicode11utf8'', ''unicode20utf8'', ''utf-8'',
                      ''utf8'', ''x-unicode20utf8'']
      then Some UTF_8
      else if label \<in> set [''csshiftjis'', ''ms932'', ''ms_kanji'', ''shift-jis'', ''shift_jis'',
                           ''sjis'', ''windows-31j'', ''x-sjis'']
      then Some Shift_JIS
      else None)"

definition emit :: "code_point \<Rightarrow> js_error + code_point list \<Rightarrow> js_error + code_point list" where
  "emit cp r = (case r of Inl e \<Rightarrow> Inl e | Inr cps \<Rightarrow> Inr (cp # cps))"

record utf8_state =
  code_point :: code_point
  bytes_seen :: nat
  bytes_needed :: nat
  lower_boundary :: byte
  upper_boundary :: byte

definition utf8_initial :: utf8_state where
  "utf8_initial =
     \<lparr>code_point = 0, bytes_seen = 0, bytes_needed = 0,
      lower_boundary = 0x80, upper_boundary = 0xBF\<rparr>"

text \<open>
  Modelled from the spec: the strict UTF-8 decode of step 3, absent from the repository.
  This is the UTF-8 decoder's handler of the Encoding Standard, run over the whole input.
  End of input inside a sequence, a byte that cannot start a sequence and a continuation
  byte outside the boundaries are the errors.
\<close>

fun utf8_decoder :: "utf8_state \<Rightarrow> byte list \<Rightarrow> js_error + code_point list" where
  "utf8_decoder st [] = (if bytes_needed st \<noteq> 0 then Inl TypeError else Inr [])"
| "utf8_decoder st (b # bs) =
     (if bytes_needed st = 0 then
        (if b \<le> 0x7F then emit (ucast b) (utf8_decoder st bs)
         else if 0xC2 \<le> b \<and> b \<le> 0xDF then
           utf8_decoder (st\<lparr>bytes_needed := 1, code_point := ucast (b AND 0x1F)\<rparr>) bs
         else if 0xE0 \<le> b \<and> b \<le> 0xEF then
           utf8_decoder
             (st\<lparr>lower_boundary := (if b = 0xE0 then 0xA0 else lower_boundary st),
                 upper_boundary := (if b = 0xED then 0x9F else upper_boundary st),
                 bytes_needed := 2, code_point := ucast (b AND 0xF)\<rparr>) bs
         else if 0xF0 \<le> b \<and> b \<le> 0xF4 then
           utf8_decoder
             (st\<lparr>lower_boundary := (if b = 0xF0 then 0x90 else lower_boundary st),
                 upper_boundary := (if b = 0xF4 then 0x8F else upper_boundary st),
                 bytes_needed := 3, code_point := ucast (b AND 0x7)\<rparr>) bs
         else Inl TypeError)
      else if \<not> (lower_boundary st \<le> b \<and> b \<le> upper_boundary st) then Inl TypeError
      else
        (let cp = push_bit 6 (code_point st) OR ucast (b AND 0x3F);
             seen = bytes_seen st + 1
         in if seen \<noteq> bytes_needed st then
              utf8_decoder
                (st\<lparr>lower_boundary := 0x80, upper_boundary := 0xBF,
                    code_point := cp, bytes_seen := seen\<rparr>) bs
            else emit cp (utf8_decoder utf8_initial bs)))"

text \<open>
  Modelled from the spec: the strict Shift\_JIS decode of step 4, absent from the
  repository. This is the Shift\_JIS decoder's handler of the Encoding Standard, run over
  the whole input; \<open>lead\<close> is the pending lead byte
  (\<open>0\<close> for none). The pointer is computed on natural numbers: a lead byte is at least its
  lead offset and a trail byte in range is at least its offset, so no subtraction truncates.
\<close>

fun shift_jis_decoder ::
  "(nat \<Rightarrow> code_point option) \<Rightarrow> byte \<Rightarrow> byte list \<Rightarrow> js_error + code_point list" where
  "shift_jis_decoder jis0208 lead [] = (if lead \<noteq> 0 then Inl TypeError else Inr [])"
| "shift_jis_decoder jis0208 lead (b # bs) =
     (if lead \<noteq> 0 then
        (let offset = (if b < 0x7F then 0x40 else 0x41);
             lead_offset = (if lead < 0xA0 then 0x81 else 0xC1)
         in if (0x40 \<le> b \<and> b \<le> 0x7E) \<or> (0x80 \<le> b \<and> b \<le> 0xFC) then
              (let pointer = (unat lead - lead_offset) * 188 + unat b - offset
               in if 8836 \<le> pointer \<and> pointer \<le> 10715 then
                    emit (of_nat (0xE000 - 8836 + pointer)) (shift_jis_decoder jis0208 0 bs)
                  else
                    (case jis0208 pointer of
                       Some cp \<Rightarrow> emit cp (shift_jis_decoder jis0208 0 bs)
                     | None \<Rightarrow> Inl TypeError))
            else Inl TypeError)
      else if b \<le> 0x7F \<or> b = 0x80 then emit (ucast b) (shift_jis_decoder jis0208 0 bs)
      else if 0xA1 \<le> b \<and> b \<le> 0xDF then
        emit (0xFF61 - 0xA1 + ucast b) (shift_jis_decoder jis0208 0 bs)
      else if (0x81 \<le> b \<and> b \<le> 0x9F) \<or> (0xE0 \<le> b \<and> b \<le> 0xFC) then
        shift_jis_decoder jis0208 b bs
      else Inl TypeError)"

text \<open>
  Modelled from the spec: what \<open>decode\<close> returns, absent from the repository. The decoded
  code points become a JavaScript string: for UTF-8 a leading U+FEFF is dropped (byte-order
  mark), and every code point above U+FFFF becomes a surrogate pair.
\<close>

definition strip_bom :: "code_point list \<Rightarrow> code_point list" where
  "strip_bom cps = (case cps of [] \<Rightarrow> [] | cp # rest \<Rightarrow> if cp = 0xFEFF then rest else cps)"

definition code_units_of :: "code_point \<Rightarrow> js_string" where
  "code_units_of cp =
     (if cp \<le> 0xFFFF then [ucast cp]
      else [ucast (0xD800 + drop_bit 10 (cp - 0x10000)),
            ucast (0xDC00 + ((cp - 0x10000) AND 0x3FF))])"

definition to_js_string :: "code_point list \<Rightarrow> js_string" where
  "to_js_string cps = concat (map code_units_of cps)"

definition utf8_decode :: "byte list \<Rightarrow> js_error + js_string" where
  "utf8_decode bytes =
     (case utf8_decoder utf8_initial bytes of
        Inl e \<Rightarrow> Inl e
      | Inr cps \<Rightarrow> Inr (to_js_string (strip_bom cps)))"

definition shift_jis_decode :: "(nat \<Rightarrow> code_point option) \<Rightarrow> byte list \<Rightarrow> js_error + js_string" where
  "shift_jis_decode jis0208 bytes =
     (case shift_jis_decoder jis0208 0 bytes of
        Inl e \<Rightarrow> Inl e
      | Inr cps \<Rightarrow> Inr (to_js_string cps))"

text \<open>
  Modelled from the spec: \<open>new TextDecoder(label, { fatal: true }).decode(bytes)\<close>, absent
  from the repository. A label that names no encoding makes the constructor throw a
  \<open>RangeError\<close>; only the labels of the two encodings the program asks for are listed.
\<close>

definition TextDecoder :: "(nat \<Rightarrow> code_point option) \<Rightarrow> text_decoder" where
  "TextDecoder jis0208 label bytes =
     (case get_encoding label of
        None \<Rightarrow> Inl RangeError
      | Some UTF_8 \<Rightarrow> utf8_decode bytes
      | Some Shift_JIS \<Rightarrow> shift_jis_decode jis0208 bytes)"

text \<open>
  An excerpt of the index \<open>jis0208\<close>, enough to run examples: pointer 0 is U+3000
  (ideographic space, bytes 81 40), pointers 283 and 285 are U+3042 and U+3044 (hiragana A
  and I, bytes 82 A0 and 82 A2).
\<close>

definition jis0208_excerpt :: "nat \<Rightarrow> code_point option" where
  "jis0208_excerpt pointer =
     (if pointer = 0 then Some 0x3000
      else if pointer = 283 then Some 0x3042
      else if pointer = 285 then Some 0x3044
      else None)"

section \<open>Facts about the loops and the control flow\<close>

lemma le_255_drop: "(c::16 word) \<le> 255 \<Longrightarrow> drop_bit 8 c = 0"
  by (simp add: drop_bit_eq_zero_iff_not_bit_last word_le_nat_alt  drop_bit_eq_div word_eq_iff_unsigned [where ?'a = nat] unat_div)

lemma not_printable_le_255: "(c::16 word) \<le> 255 \<Longrightarrow> \<not> high_byte_printable c"
  by (simp add: high_byte_printable_def le_255_drop)

lemma reconstruct_loop_all:
  "\<forall>c\<in>set s. high_byte_printable c \<Longrightarrow>
   reconstruct_loop s (f, acc) = (f, acc @ map (drop_bit 8) s)"
  by (induction s arbitrary: acc) auto

lemma reconstruct_loop_some:
  "\<exists>c\<in>set s. \<not> high_byte_printable c \<Longrightarrow> fst (reconstruct_loop s (f, acc)) = False"
  by (induction s arbitrary: acc) auto

lemma garbled_loop_iff: "garbled_loop s g \<longleftrightarrow> g \<and> (\<forall>c\<in>set s. c \<le> 255)"
  by (induction s) (auto simp: not_less)

lemma reconstruct_loop_bytes:
  "s \<noteq> [] \<Longrightarrow> \<forall>c\<in>set s. c \<le> 255 \<Longrightarrow> reconstruct_loop s (True, []) = (False, [])"
  by (cases s) (auto simp: not_printable_le_255)

lemma run_misinterpreted:
  "s \<noteq> [] \<Longrightarrow> \<forall>c\<in>set s. high_byte_printable c \<Longrightarrow>
   getBestEffortDecodedString_run decode (Str s) = (Return (Str (map (drop_bit 8) s)), [])"
  by (simp add: getBestEffortDecodedString_run_def repair_steps_def reconstruct_loop_all
      seq_def try_catch_def)

lemma run_wide:
  assumes "\<exists>c\<in>set s. \<not> high_byte_printable c" and "\<exists>c\<in>set s. c > 255"
  shows "getBestEffortDecodedString_run decode (Str s) = (Return (Str s), [])"
proof -
  from assms(2) have ne: "s \<noteq> []" by auto
  obtain f r where fr: "reconstruct_loop s (True, []) = (f, r)" by (cases "reconstruct_loop s (True, [])")
  with reconstruct_loop_some [OF assms(1), of True "[]"] have "f = False" by simp
  moreover from assms(2) have "\<not> garbled_loop s True" by (auto simp: garbled_loop_iff not_le)
  ultimately show ?thesis using ne fr
    by (simp add: getBestEffortDecodedString_run_def repair_steps_def seq_def try_catch_def)
qed

lemma decode_attempt_eq:
  "decode_attempt decode label buffer text =
     ((case decode label buffer of
         Inl e \<Rightarrow> Normal
       | Inr d \<Rightarrow> if d \<noteq> text then Return (Str d) else Normal), [label])"
  by (cases "decode label buffer") (simp_all add: decode_attempt_def try_catch_def)

lemma run_bytes:
  assumes "s \<noteq> []" and "\<forall>c\<in>set s. c \<le> 255"
  shows "getBestEffortDecodedString_run decode (Str s) =
     (let fallback =
            (Return (Str (case decode ''shift-jis'' (fill_buffer s) of Inl e \<Rightarrow> s | Inr d \<Rightarrow> d)),
             [''utf-8'', ''shift-jis''])
      in case decode ''utf-8'' (fill_buffer s) of
           Inl e \<Rightarrow> fallback
         | Inr d \<Rightarrow> if d \<noteq> s then (Return (Str d), [''utf-8'']) else fallback)"
proof -
  have g: "garbled_loop s True" using assms(2) by (simp add: garbled_loop_iff)
  have steps: "repair_steps decode s =
      seq (decode_attempt decode ''utf-8'' (fill_buffer s) s)
          (decode_attempt decode ''shift-jis'' (fill_buffer s) s)"
    using g reconstruct_loop_bytes [OF assms] by (simp add: repair_steps_def Let_def)
  show ?thesis
  proof (cases "decode ''utf-8'' (fill_buffer s)")
    case (Inl e)
    then show ?thesis using assms(1)
      by (cases "decode ''shift-jis'' (fill_buffer s)")
         (simp_all add: getBestEffortDecodedString_run_def steps decode_attempt_eq seq_def
            try_catch_def)
  next
    case (Inr d)
    then show ?thesis using assms(1)
      by (cases "decode ''shift-jis'' (fill_buffer s)")
         (simp_all add: getBestEffortDecodedString_run_def steps decode_attempt_eq seq_def
            try_catch_def)
  qed
qed

lemma run_falsy:
  "getBestEffortDecodedString_run decode Undefined = (Return (Str []), [])"
  "getBestEffortDecodedString_run decode Null = (Return (Str []), [])"
  "getBestEffortDecodedString_run decode (Str []) = (Return (Str []), [])"
  by (simp_all add: getBestEffortDecodedString_run_def)

lemma TextDecoder_labels:
  "TextDecoder jis0208 ''utf-8'' bytes = utf8_decode bytes"
  "TextDecoder jis0208 ''shift-jis'' bytes = shift_jis_decode jis0208 bytes"
  by (simp_all add: TextDecoder_def get_encoding_def)

lemma utf8_decode_Nil: "utf8_decode [] = Inr []"
  by (simp add: utf8_decode_def utf8_initial_def strip_bom_def to_js_string_def)

lemma shift_jis_decode_Nil: "shift_jis_decode jis0208 [] = Inr []"
  by (simp add: shift_jis_decode_def to_js_string_def)

section \<open>Step 1: high-byte reconstruction\<close>

text \<open>
  Claim C1. For every non-empty string in which every code unit has a zero low byte and a
  high byte in the range 0x20 to 0x7E, the result is the string of the high bytes, whatever
  the platform decoder is. There is no minimum length: the one-unit string 0x4100 gives
  "A", and the units 0x4100, 0x4200, 0x4300 give "ABC".
\<close>

theorem high_byte_reconstruction:
  "(\<forall>s. s \<noteq> [] \<and> (\<forall>c\<in>set s. (c AND 0x00FF) = 0 \<and> 0x20 \<le> drop_bit 8 c \<and> drop_bit 8 c \<le> 0x7E)
        \<longrightarrow> getBestEffortDecodedString decode (Str s) = Inr (Str (map (drop_bit 8) s)))
   \<and> getBestEffortDecodedString decode (Str [0x4100]) = Inr (Str [0x41])
   \<and> getBestEffortDecodedString decode (Str [0x4100, 0x4200, 0x4300]) = Inr (Str [0x41, 0x42, 0x43])"
proof -
  have general: "getBestEffortDecodedString decode (Str s) = Inr (Str (map (drop_bit 8) s))"
    if "s \<noteq> []" and "\<forall>c\<in>set s. high_byte_printable c" for s
    using run_misinterpreted [OF that] by (simp add: getBestEffortDecodedString_def call_def)
  have one: "getBestEffortDecodedString decode (Str [0x4100]) = Inr (Str [0x41])"
    using general [of "[0x4100]"] by (simp add: high_byte_printable_def)
  have abc: "getBestEffortDecodedString decode (Str [0x4100, 0x4200, 0x4300])
      = Inr (Str [0x41, 0x42, 0x43])"
    using general [of "[0x4100, 0x4200, 0x4300]"] by (simp add: high_byte_printable_def)
  from general one abc show ?thesis by (simp add: high_byte_printable_def)
qed

text \<open>The general statement of C1 applied to the units 0x4800, 0x6900 ("Hi").\<close>

theorem high_byte_reconstruction_witness:
  "[0x4800, 0x6900 :: code_unit] \<noteq> []
   \<and> high_byte_printable 0x4800 \<and> high_byte_printable 0x6900
   \<and> getBestEffortDecodedString (TextDecoder jis0208_excerpt) (Str [0x4800, 0x6900])
       = Inr (Str [0x48, 0x69])"
  using high_byte_reconstruction [of "TextDecoder jis0208_excerpt", THEN conjunct1, rule_format,
      of "[0x4800, 0x6900]"]
  by (simp add: high_byte_printable_def)

section \<open>Step 3: reinterpretation as UTF-8\<close>

text \<open>
  Claim C2. For every string whose code units are all at most 255, if the bytes of the
  string (one per code unit) decode strictly as UTF-8 and the decoded string differs from
  the input, the result is that decoded string. In particular the bytes
  E6 97 A5 E6 9C AC give the two code units U+65E5 U+672C.
\<close>

theorem utf8_reinterpretation:
  "(\<forall>s d. (\<forall>c\<in>set s. c \<le> 255) \<and> utf8_decode (fill_buffer s) = Inr d \<and> d \<noteq> s
        \<longrightarrow> getBestEffortDecodedString (TextDecoder jis0208) (Str s) = Inr (Str d))
   \<and> getBestEffortDecodedString (TextDecoder jis0208) (Str [0xE6, 0x97, 0xA5, 0xE6, 0x9C, 0xAC])
       = Inr (Str [0x65E5, 0x672C])"
proof -
  have general: "getBestEffortDecodedString (TextDecoder jis0208) (Str s) = Inr (Str d)"
    if le: "\<forall>c\<in>set s. c \<le> 255" and dec: "utf8_decode (fill_buffer s) = Inr d" and ne: "d \<noteq> s"
    for s d
  proof -
    from dec ne have "s \<noteq> []" by (auto simp: utf8_decode_Nil)
    from run_bytes [OF this le, of "TextDecoder jis0208"] dec ne show ?thesis
      by (simp add: getBestEffortDecodedString_def call_def TextDecoder_labels)
  qed
  have "utf8_decode (fill_buffer [0xE6, 0x97, 0xA5, 0xE6, 0x9C, 0xAC]) = Inr [0x65E5, 0x672C]"
    by (simp add: utf8_decode_def utf8_initial_def emit_def strip_bom_def to_js_string_def
        code_units_of_def)
  from general [OF _ this] have
    "getBestEffortDecodedString (TextDecoder jis0208) (Str [0xE6, 0x97, 0xA5, 0xE6, 0x9C, 0xAC])
       = Inr (Str [0x65E5, 0x672C])"
    by simp
  with general show ?thesis by blast
qed

text \<open>The general statement of C2 applied to the bytes C3 A9, which decode to U+00E9.\<close>

theorem utf8_reinterpretation_witness:
  "(0xC3 :: code_unit) \<le> 255 \<and> (0xA9 :: code_unit) \<le> 255
   \<and> utf8_decode (fill_buffer [0xC3, 0xA9]) = Inr [0xE9]
   \<and> [0xE9] \<noteq> [0xC3, 0xA9 :: code_unit]
   \<and> getBestEffortDecodedString (TextDecoder jis0208_excerpt) (Str [0xC3, 0xA9]) = Inr (Str [0xE9])"
proof -
  have dec: "utf8_decode (fill_buffer [0xC3, 0xA9]) = Inr [0xE9]"
    by (simp add: utf8_decode_def utf8_initial_def emit_def strip_bom_def to_js_string_def
        code_units_of_def)
  show ?thesis
    using utf8_reinterpretation [of jis0208_excerpt, THEN conjunct1, rule_format,
        of "[0xC3, 0xA9]" "[0xE9]"] dec
    by simp
qed


section \<open>Step 4: the Shift\_JIS fallback\<close>

text \<open>
  Claim C3. For every string whose code units are all at most 255, if the strict UTF-8
  decoding of its bytes fails or gives back the input, while the strict Shift\_JIS decoding
  of the same bytes succeeds with a different string, the result is that Shift\_JIS
  decoding. It holds for every index \<open>jis0208\<close>.
\<close>

theorem shift_jis_fallback:
  assumes "\<forall>c\<in>set s. c \<le> 255"
    and "(\<exists>e. utf8_decode (fill_buffer s) = Inl e) \<or> utf8_decode (fill_buffer s) = Inr s"
    and "shift_jis_decode jis0208 (fill_buffer s) = Inr d"
    and "d \<noteq> s"
  shows "getBestEffortDecodedString (TextDecoder jis0208) (Str s) = Inr (Str d)"
proof -
  from assms(3,4) have "s \<noteq> []" by (auto simp: shift_jis_decode_Nil)
  from run_bytes [OF this assms(1), of "TextDecoder jis0208"] assms(2,3) show ?thesis
    by (auto simp: getBestEffortDecodedString_def call_def TextDecoder_labels)
qed

text \<open>
  C3 at the bytes 82 A0: a lone continuation byte for UTF-8, hiragana A (U+3042) for
  Shift\_JIS.
\<close>

theorem shift_jis_fallback_witness:
  "(0x82 :: code_unit) \<le> 255 \<and> (0xA0 :: code_unit) \<le> 255
   \<and> utf8_decode (fill_buffer [0x82, 0xA0]) = Inl TypeError
   \<and> shift_jis_decode jis0208_excerpt (fill_buffer [0x82, 0xA0]) = Inr [0x3042]
   \<and> [0x3042] \<noteq> [0x82, 0xA0 :: code_unit]
   \<and> getBestEffortDecodedString (TextDecoder jis0208_excerpt) (Str [0x82, 0xA0]) = Inr (Str [0x3042])"
proof -
  have u: "utf8_decode (fill_buffer [0x82, 0xA0]) = Inl TypeError"
    by (simp add: utf8_decode_def utf8_initial_def)
  have j: "shift_jis_decode jis0208_excerpt (fill_buffer [0x82, 0xA0]) = Inr [0x3042]"
    by (simp add: shift_jis_decode_def jis0208_excerpt_def emit_def to_js_string_def
        code_units_of_def)
  show ?thesis
    using shift_jis_fallback [of "[0x82, 0xA0]" jis0208_excerpt "[0x3042]"] u j by simp
qed

section \<open>Step 2: text with a code unit above 255\<close>

text \<open>
  Claim C4 says that every string with a code unit above 255 is returned unchanged. Step 1
  runs first: the units 0x4100, 0x4200, 0x4300 are all above 255 and the result is "ABC",
  not the input.
\<close>

theorem wide_text_counterexample:
  "(0x4100 :: code_unit) \<in> set [0x4100, 0x4200, 0x4300] \<and> (0x4100 :: code_unit) > 255
   \<and> getBestEffortDecodedString (TextDecoder jis0208_excerpt) (Str [0x4100, 0x4200, 0x4300])
       = Inr (Str [0x41, 0x42, 0x43])
   \<and> Str [0x41, 0x42, 0x43] \<noteq> Str [0x4100, 0x4200, 0x4300]"
  by (simp add: getBestEffortDecodedString_def getBestEffortDecodedString_run_def call_def
      repair_steps_def high_byte_printable_def seq_def try_catch_def)

text \<open>
  Claim C4, amended. For every string with at least one code unit above 255, the result is
  the string unchanged, unless every code unit has a zero low byte and a high byte in the
  range 0x20 to 0x7E; then step 1 applies and the result is the string of the high bytes.
\<close>

theorem wide_text_unchanged_or_reconstructed:
  assumes "\<exists>c\<in>set s. c > 255"
  shows "getBestEffortDecodedString decode (Str s) =
     Inr (Str (if \<forall>c\<in>set s. (c AND 0x00FF) = 0 \<and> 0x20 \<le> drop_bit 8 c \<and> drop_bit 8 c \<le> 0x7E
               then map (drop_bit 8) s else s))"
proof -
  have main: "getBestEffortDecodedString decode (Str s) =
      Inr (Str (if \<forall>c\<in>set s. high_byte_printable c then map (drop_bit 8) s else s))"
  proof (cases "\<forall>c\<in>set s. high_byte_printable c")
    case True
    from assms have "s \<noteq> []" by auto
    from run_misinterpreted [OF this True, of decode] True show ?thesis
      by (simp add: getBestEffortDecodedString_def call_def)
  next
    case False
    then have "\<exists>c\<in>set s. \<not> high_byte_printable c" by simp
    from run_wide [OF this assms, of decode] False show ?thesis
      by (auto simp: getBestEffortDecodedString_def call_def)
  qed
  then show ?thesis by (simp add: high_byte_printable_def)
qed

text \<open>
  The amended C4 at U+3042 followed by "A" (returned unchanged) and at the single unit
  0x4100 (reconstructed to "A").
\<close>

theorem wide_text_unchanged_or_reconstructed_witness:
  "(0x3042 :: code_unit) \<in> set [0x3042, 0x41] \<and> (0x3042 :: code_unit) > 255
   \<and> getBestEffortDecodedString (TextDecoder jis0208_excerpt) (Str [0x3042, 0x41])
       = Inr (Str [0x3042, 0x41])
   \<and> (0x4100 :: code_unit) \<in> set [0x4100] \<and> (0x4100 :: code_unit) > 255
   \<and> getBestEffortDecodedString (TextDecoder jis0208_excerpt) (Str [0x4100]) = Inr (Str [0x41])"
  using wide_text_unchanged_or_reconstructed [of "[0x3042, 0x41]" "TextDecoder jis0208_excerpt"]
    wide_text_unchanged_or_reconstructed [of "[0x4100]" "TextDecoder jis0208_excerpt"]
  by simp

section \<open>Empty and undefined input\<close>

text \<open>
  Claim C5 says that \<open>undefined\<close> is returned as \<open>undefined\<close>. The first statement of the
  function is \<open>if (!text) return ''\<close>: the result for \<open>undefined\<close> is the empty string.
\<close>

theorem undefined_counterexample:
  "getBestEffortDecodedString (TextDecoder jis0208_excerpt) Undefined = Inr (Str [])
   \<and> Str [] \<noteq> Undefined"
  by (simp add: getBestEffortDecodedString_def getBestEffortDecodedString_run_def call_def)

text \<open>
  Claim C5, amended. For \<open>undefined\<close> and for the empty string the result is the empty
  string, returned before any repair step runs: the run is the single \<open>return ''\<close> and no
  decoder is constructed.
\<close>

theorem empty_input_short_circuit:
  "getBestEffortDecodedString decode Undefined = Inr (Str [])
   \<and> getBestEffortDecodedString decode (Str []) = Inr (Str [])
   \<and> getBestEffortDecodedString_run decode Undefined = (Return (Str []), [])
   \<and> getBestEffortDecodedString_run decode (Str []) = (Return (Str []), [])"
  by (simp add: getBestEffortDecodedString_def run_falsy call_def)

text \<open>The amended C5 with the platform decoder of this theory.\<close>

theorem empty_input_short_circuit_witness:
  "getBestEffortDecodedString (TextDecoder jis0208_excerpt) Undefined = Inr (Str [])
   \<and> getBestEffortDecodedString (TextDecoder jis0208_excerpt) (Str []) = Inr (Str [])"
  using empty_input_short_circuit [of "TextDecoder jis0208_excerpt"] by simp


section \<open>Errors never reach the caller\<close>

lemma run_returns_string: "\<exists>r l. getBestEffortDecodedString_run decode t = (Return (Str r), l)"
proof (cases t)
  case (Str s)
  show ?thesis
  proof (cases "s = []")
    case True
    with Str show ?thesis by (simp add: run_falsy)
  next
    case ne: False
    show ?thesis
    proof (cases "\<forall>c\<in>set s. high_byte_printable c")
      case True
      from run_misinterpreted [OF ne True, of decode] Str show ?thesis by simp
    next
      case np: False
      show ?thesis
      proof (cases "\<forall>c\<in>set s. c \<le> 255")
        case True
        from run_bytes [OF ne True, of decode] Str show ?thesis
          by (simp add: Let_def split: sum.split)
      next
        case False
        then have w: "\<exists>c\<in>set s. c > 255" by (auto simp: not_le)
        from np have "\<exists>c\<in>set s. \<not> high_byte_printable c" by simp
        from run_wide [OF this w, of decode] Str show ?thesis by simp
      qed
    qed
  qed
qed (simp_all add: run_falsy)

text \<open>
  Claim C6. For every input and every platform decoder, whatever errors the decoder throws,
  the call returns a string and throws nothing. A UTF-8 attempt that throws counts as not
  applying: the result is then decided by the Shift\_JIS attempt alone. When the Shift\_JIS
  attempt throws as well (the UTF-8 attempt having thrown or given back the input), the
  result is the original input.
\<close>

theorem never_raises:
  "(\<exists>r. getBestEffortDecodedString decode t = Inr (Str r))
   \<and> (\<forall>s. s \<noteq> [] \<and> (\<forall>c\<in>set s. c \<le> 255) \<and> (\<exists>e. decode ''utf-8'' (fill_buffer s) = Inl e)
         \<longrightarrow> getBestEffortDecodedString decode (Str s) =
               Inr (Str (case decode ''shift-jis'' (fill_buffer s) of Inl e \<Rightarrow> s | Inr d \<Rightarrow> d)))
   \<and> (\<forall>s. (\<forall>c\<in>set s. c \<le> 255)
           \<and> ((\<exists>e. decode ''utf-8'' (fill_buffer s) = Inl e) \<or> decode ''utf-8'' (fill_buffer s) = Inr s)
           \<and> (\<exists>e. decode ''shift-jis'' (fill_buffer s) = Inl e)
         \<longrightarrow> getBestEffortDecodedString decode (Str s) = Inr (Str s))"
proof (intro conjI allI impI)
  from run_returns_string [of decode t]
  show "\<exists>r. getBestEffortDecodedString decode t = Inr (Str r)"
    by (auto simp: getBestEffortDecodedString_def call_def)
next
  fix s
  assume a: "s \<noteq> [] \<and> (\<forall>c\<in>set s. c \<le> 255) \<and> (\<exists>e. decode ''utf-8'' (fill_buffer s) = Inl e)"
  then have "s \<noteq> []" and "\<forall>c\<in>set s. c \<le> 255" by simp_all
  from run_bytes [OF this, of decode] a
  show "getBestEffortDecodedString decode (Str s) =
      Inr (Str (case decode ''shift-jis'' (fill_buffer s) of Inl e \<Rightarrow> s | Inr d \<Rightarrow> d))"
    by (auto simp: getBestEffortDecodedString_def call_def)
next
  fix s
  assume a: "(\<forall>c\<in>set s. c \<le> 255)
      \<and> ((\<exists>e. decode ''utf-8'' (fill_buffer s) = Inl e) \<or> decode ''utf-8'' (fill_buffer s) = Inr s)
      \<and> (\<exists>e. decode ''shift-jis'' (fill_buffer s) = Inl e)"
  show "getBestEffortDecodedString decode (Str s) = Inr (Str s)"
  proof (cases "s = []")
    case True
    then show ?thesis by (simp add: getBestEffortDecodedString_def run_falsy call_def)
  next
    case False
    from a have "\<forall>c\<in>set s. c \<le> 255" by simp
    from run_bytes [OF False this, of decode] a show ?thesis
      by (auto simp: getBestEffortDecodedString_def call_def)
  qed
qed

text \<open>
  C6 with the platform decoder of this theory: the byte B1 is rejected by UTF-8 and is
  U+FF71 in Shift\_JIS; the byte FF is rejected by both.
\<close>

theorem never_raises_witness:
  "getBestEffortDecodedString (TextDecoder jis0208_excerpt) (Str [0xB1]) = Inr (Str [0xFF71])
   \<and> TextDecoder jis0208_excerpt ''utf-8'' (fill_buffer [0xB1]) = Inl TypeError
   \<and> getBestEffortDecodedString (TextDecoder jis0208_excerpt) (Str [0xFF]) = Inr (Str [0xFF])
   \<and> TextDecoder jis0208_excerpt ''utf-8'' (fill_buffer [0xFF]) = Inl TypeError
   \<and> TextDecoder jis0208_excerpt ''shift-jis'' (fill_buffer [0xFF]) = Inl TypeError"
proof -
  have u1: "TextDecoder jis0208_excerpt ''utf-8'' (fill_buffer [0xB1]) = Inl TypeError"
    and j1: "TextDecoder jis0208_excerpt ''shift-jis'' (fill_buffer [0xB1]) = Inr [0xFF71]"
    and u2: "TextDecoder jis0208_excerpt ''utf-8'' (fill_buffer [0xFF]) = Inl TypeError"
    and j2: "TextDecoder jis0208_excerpt ''shift-jis'' (fill_buffer [0xFF]) = Inl TypeError"
    by (simp_all add: TextDecoder_labels utf8_decode_def utf8_initial_def shift_jis_decode_def
        emit_def to_js_string_def code_units_of_def)
  note n = never_raises [of "TextDecoder jis0208_excerpt" "Str [0xFF]"]
  from n [THEN conjunct2, THEN conjunct1, rule_format, of "[0xB1]"] u1 j1
  have a: "getBestEffortDecodedString (TextDecoder jis0208_excerpt) (Str [0xB1]) = Inr (Str [0xFF71])"
    by simp
  from n [THEN conjunct2, THEN conjunct2, rule_format, of "[0xFF]"] u2 j2
  have b: "getBestEffortDecodedString (TextDecoder jis0208_excerpt) (Str [0xFF]) = Inr (Str [0xFF])"
    by simp
  from a b u1 u2 j2 show ?thesis by simp
qed

section \<open>Step 5: no decoding applies\<close>

text \<open>
  Claim C7. For every string whose code units are all at most 255, if the bytes of the
  string are rejected by the strict UTF-8 decoder and by the strict Shift\_JIS decoder,
  the result is the string unchanged. It holds for every index \<open>jis0208\<close>.
\<close>

theorem both_invalid_unchanged:
  assumes "\<forall>c\<in>set s. c \<le> 255"
    and "utf8_decode (fill_buffer s) = Inl e1"
    and "shift_jis_decode jis0208 (fill_buffer s) = Inl e2"
  shows "getBestEffortDecodedString (TextDecoder jis0208) (Str s) = Inr (Str s)"
proof -
  from assms(2) have "s \<noteq> []" by (auto simp: utf8_decode_Nil)
  from run_bytes [OF this assms(1), of "TextDecoder jis0208"] assms(2,3) show ?thesis
    by (simp add: getBestEffortDecodedString_def call_def TextDecoder_labels)
qed

text \<open>
  C7 at the bytes 81 FF: 81 is a continuation byte for UTF-8, and FF cannot follow the
  lead byte 81 in Shift\_JIS.
\<close>

theorem both_invalid_unchanged_witness:
  "(0x81 :: code_unit) \<le> 255 \<and> (0xFF :: code_unit) \<le> 255
   \<and> utf8_decode (fill_buffer [0x81, 0xFF]) = Inl TypeError
   \<and> shift_jis_decode jis0208_excerpt (fill_buffer [0x81, 0xFF]) = Inl TypeError
   \<and> getBestEffortDecodedString (TextDecoder jis0208_excerpt) (Str [0x81, 0xFF])
       = Inr (Str [0x81, 0xFF])"
proof -
  have u: "utf8_decode (fill_buffer [0x81, 0xFF]) = Inl TypeError"
    by (simp add: utf8_decode_def utf8_initial_def)
  have j: "shift_jis_decode jis0208_excerpt (fill_buffer [0x81, 0xFF]) = Inl TypeError"
    by (simp add: shift_jis_decode_def)
  show ?thesis
    using both_invalid_unchanged [of "[0x81, 0xFF]" TypeError jis0208_excerpt TypeError] u j
    by simp
qed

section \<open>The byte-range pre-check disables the decoders\<close>

text \<open>
  Claim C8. For every string that step 1 does not classify as misinterpreted (some code
  unit has a non-zero low byte or a high byte outside 0x20 to 0x7E), if some code unit is
  above 255 the result is the string unchanged, and the call constructs no decoder:
  neither the UTF-8 nor the Shift\_JIS attempt is made, whatever the other units are.
\<close>

theorem wide_text_skips_decoders:
  assumes "\<exists>c\<in>set s. \<not> ((c AND 0x00FF) = 0 \<and> 0x20 \<le> drop_bit 8 c \<and> drop_bit 8 c \<le> 0x7E)"
    and "\<exists>c\<in>set s. c > 255"
  shows "getBestEffortDecodedString decode (Str s) = Inr (Str s)
         \<and> decoders_attempted decode (Str s) = []"
proof -
  from assms(1) have "\<exists>c\<in>set s. \<not> high_byte_printable c"
    by (simp add: high_byte_printable_def)
  from run_wide [OF this assms(2), of decode] show ?thesis
    by (simp add: getBestEffortDecodedString_def decoders_attempted_def call_def)
qed

text \<open>
  C8 at the units E6 97 A5 followed by U+3042: the first three are the UTF-8 bytes of
  U+65E5, yet the string is returned as it is and no decoder runs.
\<close>

theorem wide_text_skips_decoders_witness:
  "\<not> high_byte_printable 0xE6 \<and> (0xE6 :: code_unit) \<in> set [0xE6, 0x97, 0xA5, 0x3042]
   \<and> (0x3042 :: code_unit) > 255 \<and> (0x3042 :: code_unit) \<in> set [0xE6, 0x97, 0xA5, 0x3042]
   \<and> getBestEffortDecodedString (TextDecoder jis0208_excerpt) (Str [0xE6, 0x97, 0xA5, 0x3042])
       = Inr (Str [0xE6, 0x97, 0xA5, 0x3042])
   \<and> decoders_attempted (TextDecoder jis0208_excerpt) (Str [0xE6, 0x97, 0xA5, 0x3042]) = []"
  using wide_text_skips_decoders [of "[0xE6, 0x97, 0xA5, 0x3042]" "TextDecoder jis0208_excerpt"]
  by (simp add: high_byte_printable_def)

section \<open>Idempotence on fixed points\<close>

text \<open>
  Claim C9. For every input that the function returns unchanged, applying the function to
  its own result returns that input again.
\<close>

theorem conditional_idempotence:
  assumes "getBestEffortDecodedString decode s = Inr s"
  shows "(case getBestEffortDecodedString decode s of
            Inl e \<Rightarrow> Inl e
          | Inr r \<Rightarrow> getBestEffortDecodedString decode r) = Inr s"
  using assms by simp

text \<open>C9 at the ASCII string "Hi", which both decoders give back as it is.\<close>

theorem conditional_idempotence_witness:
  "getBestEffortDecodedString (TextDecoder jis0208_excerpt) (Str [0x48, 0x69]) = Inr (Str [0x48, 0x69])
   \<and> (case getBestEffortDecodedString (TextDecoder jis0208_excerpt) (Str [0x48, 0x69]) of
         Inl e \<Rightarrow> Inl e
       | Inr r \<Rightarrow> getBestEffortDecodedString (TextDecoder jis0208_excerpt) r) = Inr (Str [0x48, 0x69])"
proof -
  have fixed: "getBestEffortDecodedString (TextDecoder jis0208_excerpt) (Str [0x48, 0x69])
      = Inr (Str [0x48, 0x69])"
    by (simp add: getBestEffortDecodedString_def getBestEffortDecodedString_run_def call_def
        repair_steps_def high_byte_printable_def decode_attempt_eq seq_def try_catch_def
        TextDecoder_labels utf8_decode_def utf8_initial_def shift_jis_decode_def emit_def
        strip_bom_def to_js_string_def code_units_of_def)
  from conditional_idempotence [OF fixed] fixed show ?thesis by blast
qed


section \<open>When the result is empty\<close>

lemma emit_not_empty: "emit cp r \<noteq> Inr []"
  by (cases r) (simp_all add: emit_def)

lemma utf8_decoder_not_empty:
  "bs \<noteq> [] \<or> bytes_needed st \<noteq> 0 \<Longrightarrow> utf8_decoder st bs \<noteq> Inr []"
proof (induction bs arbitrary: st)
  case Nil
  then show ?case by simp
next
  case (Cons b bs)
  show ?case
  proof (cases "bytes_needed st = 0")
    case True
    then show ?thesis
      by (simp add: emit_not_empty Cons.IH)
  next
    case False
    then show ?thesis
      by (simp add: emit_not_empty Cons.IH Let_def)
  qed
qed

lemma shift_jis_decoder_not_empty:
  "bs \<noteq> [] \<or> lead \<noteq> 0 \<Longrightarrow> shift_jis_decoder jis0208 lead bs \<noteq> Inr []"
proof (induction bs arbitrary: lead)
  case Nil
  then show ?case by simp
next
  case (Cons b bs)
  show ?case
  proof (cases "lead = 0")
    case True
    have "b \<noteq> 0" if "0x81 \<le> b" using that by auto
    moreover have "b \<noteq> 0" if "0xE0 \<le> b" using that by auto
    ultimately show ?thesis using True
      by (auto simp: emit_not_empty Cons.IH)
  next
    case False
    then show ?thesis
      by (simp add: emit_not_empty Let_def split: option.split)
  qed
qed

lemma code_units_of_not_empty: "code_units_of cp \<noteq> []"
  by (simp add: code_units_of_def)

lemma to_js_string_empty_iff: "to_js_string cps = [] \<longleftrightarrow> cps = []"
  by (cases cps) (simp_all add: to_js_string_def code_units_of_not_empty)

lemma shift_jis_decode_empty_iff: "shift_jis_decode jis0208 bytes = Inr [] \<longleftrightarrow> bytes = []"
proof
  assume a: "shift_jis_decode jis0208 bytes = Inr []"
  show "bytes = []"
  proof (rule ccontr)
    assume "bytes \<noteq> []"
    then have "shift_jis_decoder jis0208 0 bytes \<noteq> Inr []"
      by (simp add: shift_jis_decoder_not_empty)
    with a show False
      by (auto simp: shift_jis_decode_def to_js_string_empty_iff split: sum.splits)
  qed
qed (simp add: shift_jis_decode_Nil)

lemma fill_buffer_empty_iff: "fill_buffer s = [] \<longleftrightarrow> s = []"
  by (cases s) simp_all

lemma empty_result_bytes:
  assumes ne: "s \<noteq> []" and le: "\<forall>c\<in>set s. c \<le> 255"
  shows "getBestEffortDecodedString (TextDecoder jis0208) (Str s) = Inr (Str [])
     \<longleftrightarrow> utf8_decode (fill_buffer s) = Inr []"
proof -
  have j: "shift_jis_decode jis0208 (fill_buffer s) \<noteq> Inr []"
    using ne by (simp add: shift_jis_decode_empty_iff fill_buffer_empty_iff)
  show ?thesis
  proof (cases "utf8_decode (fill_buffer s)")
    case (Inl e)
    with run_bytes [OF ne le, of "TextDecoder jis0208"] ne j show ?thesis
      by (cases "shift_jis_decode jis0208 (fill_buffer s)")
         (simp_all add: getBestEffortDecodedString_def call_def TextDecoder_labels)
  next
    case (Inr d)
    with run_bytes [OF ne le, of "TextDecoder jis0208"] ne j show ?thesis
      by (cases "shift_jis_decode jis0208 (fill_buffer s)")
         (auto simp: getBestEffortDecodedString_def call_def TextDecoder_labels)
  qed
qed

lemma nonempty_result_wide:
  assumes ne: "s \<noteq> []" and wide: "\<not> (\<forall>c\<in>set s. c \<le> 255)"
  shows "getBestEffortDecodedString decode (Str s) \<noteq> Inr (Str [])"
proof (cases "\<forall>c\<in>set s. high_byte_printable c")
  case True
  from run_misinterpreted [OF ne True, of decode] ne show ?thesis
    by (simp add: getBestEffortDecodedString_def call_def)
next
  case False
  then have np: "\<exists>c\<in>set s. \<not> high_byte_printable c" by simp
  from wide have "\<exists>c\<in>set s. c > 255" by (auto simp: not_le)
  from run_wide [OF np this, of decode] ne show ?thesis
    by (simp add: getBestEffortDecodedString_def call_def)
qed

lemma empty_result_by_decoding:
  "(\<exists>r. getBestEffortDecodedString (TextDecoder jis0208) t = Inr (Str r))
   \<and> (getBestEffortDecodedString (TextDecoder jis0208) t = Inr (Str []) \<longleftrightarrow>
        t = Undefined \<or> t = Null \<or> t = Str []
        \<or> (\<exists>s. t = Str s \<and> s \<noteq> [] \<and> (\<forall>c\<in>set s. c \<le> 255)
                \<and> utf8_decode (fill_buffer s) = Inr []))"
proof
  from run_returns_string [of "TextDecoder jis0208" t]
  show "\<exists>r. getBestEffortDecodedString (TextDecoder jis0208) t = Inr (Str r)"
    by (auto simp: getBestEffortDecodedString_def call_def)
next
  show "getBestEffortDecodedString (TextDecoder jis0208) t = Inr (Str []) \<longleftrightarrow>
        t = Undefined \<or> t = Null \<or> t = Str []
        \<or> (\<exists>s. t = Str s \<and> s \<noteq> [] \<and> (\<forall>c\<in>set s. c \<le> 255)
                \<and> utf8_decode (fill_buffer s) = Inr [])"
  proof (cases t)
    case (Str s)
    show ?thesis
    proof (cases "s = []")
      case True
      with Str show ?thesis by (simp add: getBestEffortDecodedString_def run_falsy call_def)
    next
      case ne: False
      show ?thesis
      proof (cases "\<forall>c\<in>set s. c \<le> 255")
        case True
        from empty_result_bytes [OF ne True, of jis0208] Str ne True show ?thesis by simp
      next
        case False
        from nonempty_result_wide [OF ne False, of "TextDecoder jis0208"] Str ne False
        show ?thesis by simp
      qed
    qed
  qed (simp_all add: getBestEffortDecodedString_def run_falsy call_def)
qed

subsection \<open>The UTF-8 decoder yields nothing only for a byte-order mark\<close>

lemma emit_single: "emit cp r = Inr [c] \<longleftrightarrow> cp = c \<and> r = Inr []"
  by (cases r) (auto simp: emit_def)

lemma utf8_decoder_empty: "utf8_decoder st bs = Inr [] \<Longrightarrow> bs = []"
  using utf8_decoder_not_empty [of bs st] by auto

lemma utf8_continue_last:
  assumes "bytes_needed st = Suc (bytes_seen st)" and "utf8_decoder st bs = Inr [c]"
  shows "\<exists>b. bs = [b] \<and> lower_boundary st \<le> b \<and> b \<le> upper_boundary st
           \<and> c = push_bit 6 (code_point st) OR ucast (b AND 0x3F)"
proof (cases bs)
  case Nil
  with assms show ?thesis by simp
next
  case (Cons b bs')
  with assms show ?thesis
    by (auto simp: Let_def emit_single split: if_splits dest: utf8_decoder_empty)
qed

lemma utf8_continue_more:
  assumes "bytes_needed st > Suc (bytes_seen st)" and "utf8_decoder st bs = Inr [c]"
  shows "\<exists>b bs'. bs = b # bs' \<and> lower_boundary st \<le> b \<and> b \<le> upper_boundary st
           \<and> utf8_decoder
                (st\<lparr>lower_boundary := 0x80, upper_boundary := 0xBF,
                    code_point := push_bit 6 (code_point st) OR ucast (b AND 0x3F),
                    bytes_seen := Suc (bytes_seen st)\<rparr>) bs' = Inr [c]"
proof (cases bs)
  case Nil
  with assms show ?thesis by simp
next
  case (Cons b bs')
  with assms show ?thesis
    by (auto simp: Let_def split: if_splits)
qed

lemma six_bit_mask: "(0x3F :: 'a::len word) = mask 6"
  by (simp add: mask_eq_exp_minus_1)

lemma payload_low:
  fixes x :: "32 word" and y :: "8 word"
  shows "(push_bit 6 x OR ucast (y AND 0x3F)) AND 0x3F = ucast (y AND 0x3F)"
    and "take_bit 26 (push_bit 6 x OR ucast (y AND 0x3F)) AND 0x3F = ucast (y AND 0x3F)"
    and "take_bit 20 (push_bit 6 x OR ucast (y AND 0x3F)) AND 0x3F = ucast (y AND 0x3F)"
  unfolding six_bit_mask by (rule bit_eqI; auto simp: bit_simps)+

lemma payload_high:
  fixes x :: "32 word" and y :: "8 word"
  shows "drop_bit 6 (push_bit 6 x OR ucast (y AND 0x3F)) = take_bit 26 x"
    and "drop_bit 6 (take_bit 26 (push_bit 6 x OR ucast (y AND 0x3F))) = take_bit 20 x"
    and "drop_bit 6 (take_bit 20 (push_bit 6 x OR ucast (y AND 0x3F))) = take_bit 14 x"
  unfolding six_bit_mask by (rule bit_eqI; auto simp: bit_simps)+

lemma lead_byte_facts:
  "\<forall>b::8 word. (ucast b :: 32 word) \<noteq> 0xFEFF"
  "\<forall>b::8 word. take_bit 26 (ucast (b AND 0x1F) :: 32 word) \<noteq> 0x3FB"
  "\<forall>b::8 word. 0xE0 \<le> b \<and> b \<le> 0xEF \<and> take_bit 20 (ucast (b AND 0xF) :: 32 word) = 0xF
      \<longrightarrow> b = 0xEF"
  "\<forall>b::8 word. 0xF0 \<le> b \<and> b \<le> 0xF4 \<and> take_bit 14 (ucast (b AND 0x7) :: 32 word) = 0
      \<longrightarrow> b = 0xF0"
  by code_simp+

lemma trail_byte_facts:
  "\<forall>b::8 word. 0x80 \<le> b \<and> b \<le> 0xBF \<and> (ucast (b AND 0x3F) :: 32 word) = 0x3F \<longrightarrow> b = 0xBF"
  "\<forall>b::8 word. 0x80 \<le> b \<and> b \<le> 0xBF \<and> (ucast (b AND 0x3F) :: 32 word) = 0x3B \<longrightarrow> b = 0xBB"
  "\<forall>b::8 word. 0x90 \<le> b \<and> b \<le> 0xBF \<longrightarrow> (ucast (b AND 0x3F) :: 32 word) \<noteq> 0xF"
  by code_simp+

lemma narrow_back: "(c :: 16 word) \<le> 255 \<Longrightarrow> ucast (ucast c :: 8 word) = c"
  by (simp add: word_le_nat_alt word_eq_iff_unsigned [where ?'a = nat] unsigned_ucast_eq
      unsigned_take_bit_eq take_bit_nat_eq_self)

lemma bom_numerals:
  "drop_bit 6 (0xFEFF :: 32 word) = 0x3FB" "(0xFEFF :: 32 word) AND 0x3F = 0x3F"
  "drop_bit 6 (0x3FB :: 32 word) = 0xF" "(0x3FB :: 32 word) AND 0x3F = 0x3B"
  "drop_bit 6 (0xF :: 32 word) = 0" "(0xF :: 32 word) AND 0x3F = 0xF"
  by simp_all

lemma utf8_decoder_bom:
  assumes dec: "utf8_decoder utf8_initial bs = Inr [0xFEFF]"
  shows "bs = [0xEF, 0xBB, 0xBF]"
proof (cases bs)
  case Nil
  with dec show ?thesis by (simp add: utf8_initial_def)
next
  case (Cons b1 bs1)
  consider (one) "b1 \<le> 0x7F"
    | (two) "\<not> b1 \<le> 0x7F" "0xC2 \<le> b1 \<and> b1 \<le> 0xDF"
    | (three) "\<not> b1 \<le> 0x7F" "\<not> (0xC2 \<le> b1 \<and> b1 \<le> 0xDF)" "0xE0 \<le> b1 \<and> b1 \<le> 0xEF"
    | (four) "\<not> b1 \<le> 0x7F" "\<not> (0xC2 \<le> b1 \<and> b1 \<le> 0xDF)" "\<not> (0xE0 \<le> b1 \<and> b1 \<le> 0xEF)"
        "0xF0 \<le> b1 \<and> b1 \<le> 0xF4"
    | (none) "\<not> b1 \<le> 0x7F" "\<not> (0xC2 \<le> b1 \<and> b1 \<le> 0xDF)" "\<not> (0xE0 \<le> b1 \<and> b1 \<le> 0xEF)"
        "\<not> (0xF0 \<le> b1 \<and> b1 \<le> 0xF4)"
    by blast
  then show ?thesis
  proof cases
    case one
    with dec Cons have "(ucast b1 :: 32 word) = 0xFEFF"
      by (simp add: utf8_initial_def emit_single)
    with lead_byte_facts(1) show ?thesis by blast
  next
    case two
    define st1 where "st1 = utf8_initial\<lparr>bytes_needed := 1, code_point := ucast (b1 AND 0x1F)\<rparr>"
    from dec Cons two have "utf8_decoder st1 bs1 = Inr [0xFEFF]"
      by (simp add: st1_def utf8_initial_def)
    from utf8_continue_last [OF _ this] obtain b2 :: byte where
      "push_bit 6 (ucast (b1 AND 0x1F)) OR ucast (b2 AND 0x3F) = (0xFEFF :: 32 word)"
      by (auto simp: st1_def utf8_initial_def)
    then have "drop_bit 6 (push_bit 6 (ucast (b1 AND 0x1F)) OR ucast (b2 AND 0x3F))
        = drop_bit 6 (0xFEFF :: 32 word)"
      by (rule arg_cong)
    then have "take_bit 26 (ucast (b1 AND 0x1F) :: 32 word) = 0x3FB"
      by (simp only: payload_high bom_numerals)
    with lead_byte_facts(2) show ?thesis by blast
  next
    case three
    define st1 where "st1 = utf8_initial
        \<lparr>lower_boundary := (if b1 = 0xE0 then 0xA0 else 0x80),
         upper_boundary := (if b1 = 0xED then 0x9F else 0xBF),
         bytes_needed := 2, code_point := ucast (b1 AND 0xF)\<rparr>"
    have n1: "Suc (bytes_seen st1) < bytes_needed st1"
      and l1: "0x80 \<le> lower_boundary st1" and u1: "upper_boundary st1 \<le> 0xBF"
      by (simp_all add: st1_def utf8_initial_def)
    from dec Cons three have "utf8_decoder st1 bs1 = Inr [0xFEFF]"
      by (auto simp: st1_def utf8_initial_def split: if_splits)
    from utf8_continue_more [OF n1 this] obtain b2 bs2 where bs1: "bs1 = b2 # bs2"
      and r2: "lower_boundary st1 \<le> b2" "b2 \<le> upper_boundary st1"
      and d2: "utf8_decoder
          (st1\<lparr>lower_boundary := 0x80, upper_boundary := 0xBF,
              code_point := push_bit 6 (code_point st1) OR ucast (b2 AND 0x3F),
              bytes_seen := Suc (bytes_seen st1)\<rparr>) bs2
          = Inr [0xFEFF]"
      by blast
    have n2: "bytes_needed
          (st1\<lparr>lower_boundary := 0x80, upper_boundary := 0xBF,
              code_point := push_bit 6 (code_point st1) OR ucast (b2 AND 0x3F),
              bytes_seen := Suc (bytes_seen st1)\<rparr>)
        = Suc (bytes_seen
          (st1\<lparr>lower_boundary := 0x80, upper_boundary := 0xBF,
              code_point := push_bit 6 (code_point st1) OR ucast (b2 AND 0x3F),
              bytes_seen := Suc (bytes_seen st1)\<rparr>))"
      by (simp add: st1_def utf8_initial_def)
    from utf8_continue_last [OF n2 d2] obtain b3 where bs2: "bs2 = [b3]"
      and r3: "0x80 \<le> b3" "b3 \<le> 0xBF"
      and eq: "push_bit 6 (push_bit 6 (ucast (b1 AND 0xF)) OR ucast (b2 AND 0x3F))
            OR ucast (b3 AND 0x3F) = (0xFEFF :: 32 word)"
      by (auto simp: st1_def utf8_initial_def)
    from arg_cong [OF eq, of "\<lambda>w. w AND 0x3F"]
    have "(ucast (b3 AND 0x3F) :: 32 word) = 0x3F"
      by (simp only: payload_low bom_numerals)
    with trail_byte_facts(1) r3 have b3: "b3 = 0xBF" by blast
    from arg_cong [OF eq, of "drop_bit 6"]
    have eq2: "take_bit 26 (push_bit 6 (ucast (b1 AND 0xF)) OR ucast (b2 AND 0x3F))
        = (0x3FB :: 32 word)"
      by (simp only: payload_high bom_numerals)
    from arg_cong [OF eq2, of "\<lambda>w. w AND 0x3F"]
    have "(ucast (b2 AND 0x3F) :: 32 word) = 0x3B"
      by (simp only: payload_low bom_numerals)
    moreover from l1 r2(1) have "0x80 \<le> b2" by (rule order_trans)
    moreover from r2(2) u1 have "b2 \<le> 0xBF" by (rule order_trans)
    ultimately have b2: "b2 = 0xBB" using trail_byte_facts(2) by blast
    from arg_cong [OF eq2, of "drop_bit 6"]
    have "take_bit 20 (ucast (b1 AND 0xF) :: 32 word) = 0xF"
      by (simp only: payload_high bom_numerals)
    with lead_byte_facts(3) three(3) have "b1 = 0xEF" by blast
    with Cons bs1 bs2 b2 b3 show ?thesis by simp
  next
    case four
    define st1 where "st1 = utf8_initial
        \<lparr>lower_boundary := (if b1 = 0xF0 then 0x90 else 0x80),
         upper_boundary := (if b1 = 0xF4 then 0x8F else 0xBF),
         bytes_needed := 3, code_point := ucast (b1 AND 0x7)\<rparr>"
    have n1: "Suc (bytes_seen st1) < bytes_needed st1"
      and l1: "b1 = 0xF0 \<Longrightarrow> 0x90 \<le> lower_boundary st1" and u1: "upper_boundary st1 \<le> 0xBF"
      by (simp_all add: st1_def utf8_initial_def)
    from dec Cons four have "utf8_decoder st1 bs1 = Inr [0xFEFF]"
      by (auto simp: st1_def utf8_initial_def split: if_splits)
    from utf8_continue_more [OF n1 this] obtain b2 bs2 where
      r2: "lower_boundary st1 \<le> b2" "b2 \<le> upper_boundary st1"
      and d2: "utf8_decoder
          (st1\<lparr>lower_boundary := 0x80, upper_boundary := 0xBF,
              code_point := push_bit 6 (code_point st1) OR ucast (b2 AND 0x3F),
              bytes_seen := Suc (bytes_seen st1)\<rparr>) bs2
          = Inr [0xFEFF]"
      by blast
    define st2 where "st2 = st1\<lparr>lower_boundary := 0x80, upper_boundary := 0xBF,
              code_point := push_bit 6 (code_point st1) OR ucast (b2 AND 0x3F),
              bytes_seen := Suc (bytes_seen st1)\<rparr>"
    have n2: "Suc (bytes_seen st2) < bytes_needed st2"
      by (simp add: st2_def st1_def utf8_initial_def)
    from utf8_continue_more [OF n2 d2 [folded st2_def]] obtain b3 :: byte and bs3 where
      d3: "utf8_decoder
          (st2\<lparr>lower_boundary := 0x80, upper_boundary := 0xBF,
              code_point := push_bit 6 (code_point st2) OR ucast (b3 AND 0x3F),
              bytes_seen := Suc (bytes_seen st2)\<rparr>) bs3
          = Inr [0xFEFF]"
      by blast
    define st3 where "st3 = st2\<lparr>lower_boundary := 0x80, upper_boundary := 0xBF,
              code_point := push_bit 6 (code_point st2) OR ucast (b3 AND 0x3F),
              bytes_seen := Suc (bytes_seen st2)\<rparr>"
    have n3: "bytes_needed st3 = Suc (bytes_seen st3)"
      by (simp add: st3_def st2_def st1_def utf8_initial_def)
    from utf8_continue_last [OF n3 d3 [folded st3_def]] obtain b4 :: byte where
      eq: "push_bit 6 (push_bit 6 (push_bit 6 (ucast (b1 AND 0x7)) OR ucast (b2 AND 0x3F))
              OR ucast (b3 AND 0x3F)) OR ucast (b4 AND 0x3F) = (0xFEFF :: 32 word)"
      by (auto simp: st3_def st2_def st1_def utf8_initial_def)
    from arg_cong [OF eq, of "drop_bit 6"]
    have eq2: "take_bit 26 (push_bit 6 (push_bit 6 (ucast (b1 AND 0x7)) OR ucast (b2 AND 0x3F))
        OR ucast (b3 AND 0x3F)) = (0x3FB :: 32 word)"
      by (simp only: payload_high bom_numerals)
    from arg_cong [OF eq2, of "drop_bit 6"]
    have eq3: "take_bit 20 (push_bit 6 (ucast (b1 AND 0x7)) OR ucast (b2 AND 0x3F))
        = (0xF :: 32 word)"
      by (simp only: payload_high bom_numerals)
    from arg_cong [OF eq3, of "\<lambda>w. w AND 0x3F"]
    have u2: "(ucast (b2 AND 0x3F) :: 32 word) = 0xF"
      by (simp only: payload_low bom_numerals)
    from arg_cong [OF eq3, of "drop_bit 6"]
    have "take_bit 14 (ucast (b1 AND 0x7) :: 32 word) = 0"
      by (simp only: payload_high bom_numerals)
    with lead_byte_facts(4) four(4) have "b1 = 0xF0" by blast
    from l1 [OF this] r2(1) have "0x90 \<le> b2" by (rule order_trans)
    moreover from r2(2) u1 have "b2 \<le> 0xBF" by (rule order_trans)
    ultimately show ?thesis using trail_byte_facts(3) u2 by blast
  next
    case none
    with dec Cons show ?thesis by (simp add: utf8_initial_def)
  qed
qed

lemma strip_bom_empty_iff: "strip_bom cps = [] \<longleftrightarrow> cps = [] \<or> cps = [0xFEFF]"
  by (cases cps) (simp_all add: strip_bom_def)

lemma utf8_decode_empty_iff:
  "utf8_decode bytes = Inr [] \<longleftrightarrow> bytes = [] \<or> bytes = [0xEF, 0xBB, 0xBF]"
proof
  assume a: "utf8_decode bytes = Inr []"
  then obtain cps where cps: "utf8_decoder utf8_initial bytes = Inr cps"
    and "to_js_string (strip_bom cps) = []"
    by (auto simp: utf8_decode_def split: sum.splits)
  then have "cps = [] \<or> cps = [0xFEFF]"
    by (simp add: to_js_string_empty_iff strip_bom_empty_iff)
  with cps show "bytes = [] \<or> bytes = [0xEF, 0xBB, 0xBF]"
    by (auto dest: utf8_decoder_empty utf8_decoder_bom)
next
  assume "bytes = [] \<or> bytes = [0xEF, 0xBB, 0xBF]"
  then show "utf8_decode bytes = Inr []"
    by (auto simp: utf8_decode_def utf8_initial_def emit_def strip_bom_def to_js_string_def)
qed

lemma fill_buffer_bom:
  assumes "\<forall>c\<in>set s. c \<le> 255"
  shows "fill_buffer s = [0xEF, 0xBB, 0xBF] \<longleftrightarrow> s = [0xEF, 0xBB, 0xBF]"
proof
  assume a: "fill_buffer s = [0xEF, 0xBB, 0xBF]"
  have "map ucast (fill_buffer s) = s"
    using assms by (induction s) (simp_all add: narrow_back)
  with a show "s = [0xEF, 0xBB, 0xBF]" by simp
qed simp

text \<open>
  Claim C10 says that the result is empty only for an undefined, null or empty input. The
  string of the three units EF BB BF is none of these; its bytes are the UTF-8 byte-order
  mark, which the decoder drops, so the UTF-8 attempt yields the empty string, which
  differs from the input and is returned.
\<close>

theorem empty_result_counterexample:
  "Str [0xEF, 0xBB, 0xBF] \<noteq> Undefined \<and> Str [0xEF, 0xBB, 0xBF] \<noteq> Null
   \<and> Str [0xEF, 0xBB, 0xBF] \<noteq> Str []
   \<and> getBestEffortDecodedString (TextDecoder jis0208_excerpt) (Str [0xEF, 0xBB, 0xBF]) = Inr (Str [])"
  by (simp add: getBestEffortDecodedString_def getBestEffortDecodedString_run_def call_def
      repair_steps_def high_byte_printable_def decode_attempt_eq seq_def try_catch_def
      TextDecoder_labels utf8_decode_def utf8_initial_def emit_def strip_bom_def
      to_js_string_def)

text \<open>
  Claim C10, amended. The result is always a string, never \<open>undefined\<close>. It is the empty
  string exactly when the input is undefined, null, the empty string, or the string of the
  three code units EF BB BF (a lone UTF-8 byte-order mark, which the decoder drops). For
  every other non-empty input each outcome (the high-byte reconstruction, a UTF-8 or
  Shift\_JIS decoding, the original input) is non-empty. It holds for every index
  \<open>jis0208\<close>.
\<close>

theorem empty_result_iff:
  "(\<exists>r. getBestEffortDecodedString (TextDecoder jis0208) t = Inr (Str r))
   \<and> (getBestEffortDecodedString (TextDecoder jis0208) t = Inr (Str []) \<longleftrightarrow>
        t = Undefined \<or> t = Null \<or> t = Str [] \<or> t = Str [0xEF, 0xBB, 0xBF])"
proof -
  have "(\<exists>s. t = Str s \<and> s \<noteq> [] \<and> (\<forall>c\<in>set s. c \<le> 255)
            \<and> utf8_decode (fill_buffer s) = Inr [])
      \<longleftrightarrow> t = Str [0xEF, 0xBB, 0xBF]"
    by (auto simp: utf8_decode_empty_iff fill_buffer_empty_iff fill_buffer_bom)
  with empty_result_by_decoding [of jis0208 t] show ?thesis by simp
qed

text \<open>
  The amended C10 at the byte-order mark (empty result) and at the ASCII string "Hi"
  (non-empty result).
\<close>

theorem empty_result_iff_witness:
  "getBestEffortDecodedString (TextDecoder jis0208_excerpt) (Str [0xEF, 0xBB, 0xBF]) = Inr (Str [])
   \<and> getBestEffortDecodedString (TextDecoder jis0208_excerpt) (Str [0x48, 0x69]) \<noteq> Inr (Str [])"
  using empty_result_iff [of jis0208_excerpt "Str [0xEF, 0xBB, 0xBF]"]
    empty_result_iff [of jis0208_excerpt "Str [0x48, 0x69]"]
  by simp

end
